theory Spec2Isabelle
  imports Complex_Main "HOL-Library.AList"
begin

section \<open>The fast key-combination tracker\<close>

text \<open>
  A shallow embedding of the class \<^verbatim>\<open>FastKeyTracker\<close> of
  \<^verbatim>\<open>selection_autocomplete_popup_configurable.py\<close>: the table of registered key
  combinations, the store of keys that are down, the timer of the combination being
  assembled and the four counters.

  Conventions of the model.
  \<^item> Every method takes the tracker and returns the tracker it leaves behind, paired with
    the value the method returns when it returns one.
  \<^item> Every call of \<^verbatim>\<open>time.time()\<close> is an argument of the model: a method that reads the
    clock twice takes two readings. Timestamps are real numbers, so the subtractions and
    comparisons of the source are exact.
  \<^item> A Python \<^verbatim>\<open>dict\<close> is an association list in insertion order: assigning to a key that
    is present replaces its value in place, assigning to a new key appends
    (\<^const>\<open>AList.update\<close>); \<^verbatim>\<open>del d[k]\<close> removes the entry (\<^const>\<open>AList.delete\<close>). The keys
    of a dict are distinct, which is the predicate \<open>dict_ok\<close> below.
  \<^item> Calls of the logger change nothing in the tracker and are left out, together with the
    three debug flags that only guard them.
\<close>

subsection \<open>Keys\<close>

text \<open>
  The keys of \<^verbatim>\<open>pynput\<close>: the members of the enumeration \<^verbatim>\<open>Key\<close> that the program
  names, the other members by name, and the character keys \<^verbatim>\<open>KeyCode.from_char(c)\<close>.
\<close>

datatype key =
    Key_ctrl
  | Key_shift
  | Key_alt
  | Key_space
  | Key_tab
  | Key_enter
  | Key_f nat
  | Key_named string
  | KeyCode_from_char char

subsection \<open>The tracker\<close>

record stats =
  total_key_presses :: int
  combinations_detected :: int
  combinations_timeout :: int
  stuck_keys_cleaned :: int

record tracker =
  combination_timeout :: real
  max_key_hold_time :: real
  cleanup_interval :: real
  key_states :: "(key \<times> real) list"
  combinations :: "(string \<times> key set) list"
  combination_start_time :: "real option"
  last_activity :: real
  stats :: stats

definition dict_ok :: "('k \<times> 'v) list \<Rightarrow> bool" where
  "dict_ok d = distinct (map fst d)"

text \<open>\<^verbatim>\<open>frozenset(self.key_states.keys())\<close>\<close>

definition current_keys :: "tracker \<Rightarrow> key set" where
  "current_keys tr = set (map fst (key_states tr))"

text \<open>
  \<^verbatim>\<open>__init__\<close>, with the three timing settings read from the configuration and the
  clock reading stored in \<^verbatim>\<open>last_activity\<close>.
\<close>

definition init_tracker :: "real \<Rightarrow> real \<Rightarrow> real \<Rightarrow> real \<Rightarrow> tracker" where
  "init_tracker timeout hold interval now =
     \<lparr> combination_timeout = timeout,
       max_key_hold_time = hold,
       cleanup_interval = interval,
       key_states = [],
       combinations = [],
       combination_start_time = None,
       last_activity = now,
       stats = \<lparr> total_key_presses = 0, combinations_detected = 0,
                 combinations_timeout = 0, stuck_keys_cleaned = 0 \<rparr> \<rparr>"

subsection \<open>\<^verbatim>\<open>add_combination\<close>\<close>

definition modifier_keys :: "key set" where
  "modifier_keys = {Key_ctrl, Key_shift, Key_alt}"

definition add_combination :: "tracker \<Rightarrow> string \<Rightarrow> key list \<Rightarrow> bool \<times> tracker" where
  "add_combination tr name keys =
     (let key_set = set keys in
      if card key_set = 0 then (False, tr)
      else if card key_set = 1 \<and> key_set \<subseteq> modifier_keys then (False, tr)
      else (True, tr\<lparr>combinations := AList.update name key_set (combinations tr)\<rparr>))"

subsection \<open>\<^verbatim>\<open>check_combinations\<close>\<close>

text \<open>
  The loop over \<^verbatim>\<open>self.combinations.items()\<close>: the name of the first entry whose key
  set equals the keys that are down.
\<close>

fun first_match :: "key set \<Rightarrow> (string \<times> key set) list \<Rightarrow> string option" where
  "first_match cur [] = None"
| "first_match cur ((name, combo_keys) # rest) =
     (if cur = combo_keys then Some name else first_match cur rest)"

definition check_combinations :: "tracker \<Rightarrow> string option \<times> tracker" where
  "check_combinations tr =
     (if current_keys tr = {} then (None, tr)
      else case first_match (current_keys tr) (combinations tr) of
             Some name \<Rightarrow>
               (Some name,
                tr\<lparr>stats := (stats tr)\<lparr>combinations_detected :=
                                 combinations_detected (stats tr) + 1\<rparr>,
                   key_states := [],
                   combination_start_time := None\<rparr>)
           | None \<Rightarrow> (None, tr))"

subsection \<open>\<^verbatim>\<open>cleanup_stuck_keys\<close>\<close>

text \<open>The keys whose entry is older than \<^verbatim>\<open>max_key_hold_time\<close> at the clock reading.\<close>

definition stuck_keys :: "tracker \<Rightarrow> real \<Rightarrow> key list" where
  "stuck_keys tr current_time =
     map fst (filter (\<lambda>(k, press_time). current_time - press_time > max_key_hold_time tr)
                     (key_states tr))"

definition cleanup_stuck_keys :: "tracker \<Rightarrow> real \<Rightarrow> tracker" where
  "cleanup_stuck_keys tr current_time =
     (let stuck = stuck_keys tr current_time in
      if stuck \<noteq> [] then
        (let tr1 = tr\<lparr>stats := (stats tr)\<lparr>stuck_keys_cleaned :=
                                    stuck_keys_cleaned (stats tr) + int (length stuck)\<rparr>\<rparr>;
             tr2 = tr1\<lparr>key_states := fold AList.delete stuck (key_states tr1)\<rparr>
         in if key_states tr2 = [] then tr2\<lparr>combination_start_time := None\<rparr> else tr2)
      else tr)"

subsection \<open>\<^verbatim>\<open>on_key_press\<close> and \<^verbatim>\<open>on_key_release\<close>\<close>

text \<open>
  The test \<^verbatim>\<open>self.combination_start_time and (current_time - ...) > ...\<close>: a start time
  is true in Python when it is neither \<^verbatim>\<open>None\<close> nor \<^verbatim>\<open>0.0\<close>.
\<close>

definition timed_out :: "tracker \<Rightarrow> real \<Rightarrow> bool" where
  "timed_out tr current_time =
     (case combination_start_time tr of
        None \<Rightarrow> False
      | Some start \<Rightarrow> start \<noteq> 0 \<and> current_time - start > combination_timeout tr)"

text \<open>
  \<open>current_time\<close> is the reading \<^verbatim>\<open>on_key_press\<close> takes on entry, \<open>sweep_time\<close> the
  reading \<^verbatim>\<open>cleanup_stuck_keys\<close> takes when it is called from there.
\<close>

definition on_key_press :: "tracker \<Rightarrow> key \<Rightarrow> real \<Rightarrow> real \<Rightarrow> string option \<times> tracker" where
  "on_key_press tr key current_time sweep_time =
     (let tr1 = tr\<lparr>stats := (stats tr)\<lparr>total_key_presses :=
                                 total_key_presses (stats tr) + 1\<rparr>\<rparr>;
          tr2 = cleanup_stuck_keys tr1 sweep_time;
          tr3 = (if key_states tr2 = [] then
                   tr2\<lparr>combination_start_time := Some current_time\<rparr>
                 else if timed_out tr2 current_time then
                   tr2\<lparr>stats := (stats tr2)\<lparr>combinations_timeout :=
                                     combinations_timeout (stats tr2) + 1\<rparr>,
                       key_states := [],
                       combination_start_time := Some current_time\<rparr>
                 else tr2);
          tr4 = tr3\<lparr>key_states := AList.update key current_time (key_states tr3),
                    last_activity := current_time\<rparr>
      in check_combinations tr4)"

text \<open>
  \<^verbatim>\<open>on_key_release\<close> has no \<^verbatim>\<open>return\<close> statement: the value it returns is \<^verbatim>\<open>None\<close>.
\<close>

definition on_key_release :: "tracker \<Rightarrow> key \<Rightarrow> real \<Rightarrow> string option \<times> tracker" where
  "on_key_release tr key now =
     (if key \<in> current_keys tr then
        (let tr1 = tr\<lparr>key_states := AList.delete key (key_states tr),
                      last_activity := now\<rparr>
         in (None, if key_states tr1 = [] then tr1\<lparr>combination_start_time := None\<rparr> else tr1))
      else (None, tr))"

subsection \<open>\<^verbatim>\<open>force_reset\<close> and the monitor\<close>

definition force_reset :: "tracker \<Rightarrow> real \<Rightarrow> tracker" where
  "force_reset tr now =
     (let tr1 = (if key_states tr \<noteq> [] then tr\<lparr>key_states := []\<rparr> else tr)
      in tr1\<lparr>combination_start_time := None, last_activity := now\<rparr>)"

text \<open>
  One run of \<^verbatim>\<open>monitor\<close>, the function \<^verbatim>\<open>start_monitoring\<close> schedules every
  \<^verbatim>\<open>cleanup_interval\<close> seconds: \<open>current_time\<close> is its own clock reading,
  \<open>sweep_time\<close> the one of \<^verbatim>\<open>cleanup_stuck_keys\<close> and \<open>reset_time\<close> the one of
  \<^verbatim>\<open>force_reset\<close>. The timer that schedules the next run is not part of the state.
\<close>

definition monitor :: "tracker \<Rightarrow> real \<Rightarrow> real \<Rightarrow> real \<Rightarrow> tracker" where
  "monitor tr current_time sweep_time reset_time =
     (let tr1 = cleanup_stuck_keys tr sweep_time in
      if current_time - last_activity tr1 > 5.0 \<and> key_states tr1 \<noteq> [] then
        force_reset tr1 reset_time
      else tr1)"

subsection \<open>The invariant of the start time\<close>

text \<open>
  The start time of the combination is \<^verbatim>\<open>None\<close> exactly when no key is held.
\<close>

definition window_consistent :: "tracker \<Rightarrow> bool" where
  "window_consistent tr = (combination_start_time tr = None \<longleftrightarrow> key_states tr = [])"

section \<open>Dictionaries\<close>

lemma set_update_subset:
  "set (AList.update k v al) \<subseteq> insert (k, v) (set al)"
  by (induction al) auto

lemma fold_delete_filter:
  "fold AList.delete ks al = filter (\<lambda>(k, v). k \<notin> set ks) al"
proof (induction ks arbitrary: al)
  case Nil
  then show ?case by simp
next
  case (Cons a ks)
  have "fold AList.delete (a # ks) al = fold AList.delete ks (AList.delete a al)"
    by simp
  also have "\<dots> = filter (\<lambda>(k, v). k \<notin> set ks) (AList.delete a al)"
    by (rule Cons.IH)
  also have "\<dots> = filter (\<lambda>(k, v). k \<notin> set (a # ks)) al"
    unfolding AList.delete_eq filter_filter by (rule filter_cong) auto
  finally show ?case .
qed

section \<open>The loop of \<^verbatim>\<open>check_combinations\<close>\<close>

lemma first_match_None_iff:
  "first_match cur combos = None \<longleftrightarrow> cur \<notin> snd ` set combos"
proof (induction cur combos rule: first_match.induct)
  case (1 cur)
  show ?case by simp
next
  case (2 cur name combo_keys rest)
  show ?case
  proof (cases "cur = combo_keys")
    case True
    then show ?thesis by simp
  next
    case False
    with 2 have "first_match cur rest = None \<longleftrightarrow> cur \<notin> snd ` set rest" by blast
    with False show ?thesis by simp
  qed
qed

lemma first_match_SomeD:
  "first_match cur combos = Some name \<Longrightarrow>
     \<exists>before after. combos = before @ (name, cur) # after \<and> cur \<notin> snd ` set before"
proof (induction cur combos rule: first_match.induct)
  case (1 cur)
  then show ?case by simp
next
  case (2 cur n combo_keys rest)
  show ?case
  proof (cases "cur = combo_keys")
    case True
    with 2 have "n = name" by simp
    with True have "(n, combo_keys) # rest = [] @ (name, cur) # rest \<and> cur \<notin> snd ` set []"
      by simp
    then show ?thesis by blast
  next
    case False
    with 2 obtain before after where e: "rest = before @ (name, cur) # after"
      and nb: "cur \<notin> snd ` set before" by auto
    have "(n, combo_keys) # rest = ((n, combo_keys) # before) @ (name, cur) # after"
      using e by simp
    moreover have "cur \<notin> snd ` set ((n, combo_keys) # before)"
      using nb False by simp
    ultimately show ?thesis by blast
  qed
qed

lemma first_match_SomeI:
  "cur \<notin> snd ` set before \<Longrightarrow> first_match cur (before @ (name, cur) # after) = Some name"
proof (induction before)
  case Nil
  then show ?case by simp
next
  case (Cons b before)
  obtain n r where b: "b = (n, r)" by (cases b)
  from Cons.prems b have "cur \<noteq> r" and "cur \<notin> snd ` set before" by auto
  with Cons.IH b show ?case by simp
qed

lemma first_match_Some_iff:
  "first_match cur combos = Some name \<longleftrightarrow>
     (\<exists>before after. combos = before @ (name, cur) # after \<and> cur \<notin> snd ` set before)"
  using first_match_SomeD first_match_SomeI by blast

lemma first_match_in_table:
  "first_match cur combos = Some name \<Longrightarrow> (name, cur) \<in> set combos"
  by (auto dest: first_match_SomeD)

lemma check_combinations_fst:
  "fst (check_combinations tr) =
     (if current_keys tr = {} then None else first_match (current_keys tr) (combinations tr))"
  by (simp add: check_combinations_def split: option.splits)

lemma check_combinations_None_state:
  "fst (check_combinations tr) = None \<Longrightarrow> snd (check_combinations tr) = tr"
  by (simp add: check_combinations_def split: option.splits if_splits)

lemma check_combinations_Some_state:
  "fst (check_combinations tr) = Some name \<Longrightarrow>
     snd (check_combinations tr) =
       tr\<lparr>stats := (stats tr)\<lparr>combinations_detected := combinations_detected (stats tr) + 1\<rparr>,
          key_states := [], combination_start_time := None\<rparr>"
  by (simp add: check_combinations_def split: option.splits if_splits)

section \<open>The sweep\<close>

lemma stuck_key_iff:
  assumes "dict_ok (key_states tr)" and "(k, p) \<in> set (key_states tr)"
  shows "k \<in> set (stuck_keys tr c) \<longleftrightarrow> c - p > max_key_hold_time tr"
proof -
  have d: "distinct (map fst (key_states tr))"
    using assms(1) by (simp add: dict_ok_def)
  have uniq: "q = p" if "(k, q) \<in> set (key_states tr)" for q
    using eq_key_imp_eq_value [OF d that assms(2)] .
  show ?thesis
  proof
    assume "k \<in> set (stuck_keys tr c)"
    then obtain q where "(k, q) \<in> set (key_states tr)" and "c - q > max_key_hold_time tr"
      by (auto simp: stuck_keys_def)
    with uniq show "c - p > max_key_hold_time tr" by blast
  next
    assume "c - p > max_key_hold_time tr"
    with assms(2) have "(k, p) \<in> set (filter (\<lambda>(k, press_time).
        c - press_time > max_key_hold_time tr) (key_states tr))"
      by simp
    then have "fst (k, p) \<in> set (stuck_keys tr c)"
      unfolding stuck_keys_def set_map by (rule imageI)
    then show "k \<in> set (stuck_keys tr c)" by simp
  qed
qed

lemma cleanup_key_states:
  "key_states (cleanup_stuck_keys tr c) =
     filter (\<lambda>(k, v). k \<notin> set (stuck_keys tr c)) (key_states tr)"
proof (cases "stuck_keys tr c = []")
  case True
  then show ?thesis by (simp add: cleanup_stuck_keys_def Let_def)
next
  case False
  then show ?thesis
    by (simp add: cleanup_stuck_keys_def Let_def fold_delete_filter)
qed

lemma cleanup_key_states_ok:
  assumes "dict_ok (key_states tr)"
  shows "key_states (cleanup_stuck_keys tr c) =
     filter (\<lambda>(k, p). \<not> c - p > max_key_hold_time tr) (key_states tr)"
  unfolding cleanup_key_states
proof (rule filter_cong [OF refl])
  fix x assume x: "x \<in> set (key_states tr)"
  obtain k p where kp: "x = (k, p)" by (cases x)
  with x stuck_key_iff [OF assms, of k p c]
  show "(case x of (k, v) \<Rightarrow> k \<notin> set (stuck_keys tr c)) =
        (case x of (k, p) \<Rightarrow> \<not> c - p > max_key_hold_time tr)"
    by simp
qed

lemma cleanup_dict_ok:
  "dict_ok (key_states tr) \<Longrightarrow> dict_ok (key_states (cleanup_stuck_keys tr c))"
  by (simp add: cleanup_key_states dict_ok_def distinct_map_filter)

lemma cleanup_stats:
  "stats (cleanup_stuck_keys tr c) =
     (stats tr)\<lparr>stuck_keys_cleaned :=
                  stuck_keys_cleaned (stats tr) + int (length (stuck_keys tr c))\<rparr>"
  by (simp add: cleanup_stuck_keys_def Let_def)

lemma cleanup_frame:
  "combinations (cleanup_stuck_keys tr c) = combinations tr"
  "combination_timeout (cleanup_stuck_keys tr c) = combination_timeout tr"
  "max_key_hold_time (cleanup_stuck_keys tr c) = max_key_hold_time tr"
  "cleanup_interval (cleanup_stuck_keys tr c) = cleanup_interval tr"
  "last_activity (cleanup_stuck_keys tr c) = last_activity tr"
  by (simp_all add: cleanup_stuck_keys_def Let_def)

lemma cleanup_start_time:
  "combination_start_time (cleanup_stuck_keys tr c) =
     (if stuck_keys tr c \<noteq> [] \<and> key_states (cleanup_stuck_keys tr c) = [] then None
      else combination_start_time tr)"
  by (simp add: cleanup_stuck_keys_def Let_def)

lemma cleanup_nothing_stuck:
  "stuck_keys tr c = [] \<Longrightarrow> cleanup_stuck_keys tr c = tr"
  by (simp add: cleanup_stuck_keys_def)

section \<open>Key presses\<close>

lemma on_key_press_empty:
  assumes "key_states tr = []"
  shows "on_key_press tr key t c =
     check_combinations
       (tr\<lparr>stats := (stats tr)\<lparr>total_key_presses := total_key_presses (stats tr) + 1\<rparr>,
          combination_start_time := Some t,
          key_states := [(key, t)],
          last_activity := t\<rparr>)"
proof -
  let ?tr1 = "tr\<lparr>stats := (stats tr)\<lparr>total_key_presses := total_key_presses (stats tr) + 1\<rparr>\<rparr>"
  have "stuck_keys ?tr1 c = []"
    using assms by (simp add: stuck_keys_def)
  then have "cleanup_stuck_keys ?tr1 c = ?tr1"
    by (rule cleanup_nothing_stuck)
  then show ?thesis
    using assms by (simp add: on_key_press_def Let_def)
qed

lemma on_key_press_is_check:
  "\<exists>tr4. on_key_press tr key t c = check_combinations tr4
         \<and> key \<in> current_keys tr4 \<and> combinations tr4 = combinations tr"
proof -
  define tr1 where "tr1 = tr\<lparr>stats := (stats tr)\<lparr>total_key_presses := total_key_presses (stats tr) + 1\<rparr>\<rparr>"
  define tr2 where "tr2 = cleanup_stuck_keys tr1 c"
  define tr3 where "tr3 = (if key_states tr2 = [] then
                   tr2\<lparr>combination_start_time := Some t\<rparr>
                 else if timed_out tr2 t then
                   tr2\<lparr>stats := (stats tr2)\<lparr>combinations_timeout :=
                                     combinations_timeout (stats tr2) + 1\<rparr>,
                       key_states := [],
                       combination_start_time := Some t\<rparr>
                 else tr2)"
  define tr4 where "tr4 = tr3\<lparr>key_states := AList.update key t (key_states tr3),
                    last_activity := t\<rparr>"
  have e: "on_key_press tr key t c = check_combinations tr4"
    by (simp add: on_key_press_def Let_def tr1_def tr2_def tr3_def tr4_def)
  have "fst ` set (key_states tr4) = {key} \<union> fst ` set (key_states tr3)"
    by (simp add: tr4_def dom_update)
  then have k: "key \<in> current_keys tr4"
    by (simp add: current_keys_def)
  have "combinations tr2 = combinations tr"
    by (simp add: tr2_def tr1_def cleanup_frame)
  then have c: "combinations tr4 = combinations tr"
    by (simp add: tr4_def tr3_def)
  from e k c show ?thesis by blast
qed

lemma check_combinations_reset:
  "fst (check_combinations tr) = Some name \<Longrightarrow>
     key_states (snd (check_combinations tr)) = []
     \<and> combination_start_time (snd (check_combinations tr)) = None"
  by (simp add: check_combinations_Some_state)

section \<open>Registration\<close>

lemma add_combination_rejects_iff:
  "\<not> fst (add_combination tr name keys) \<longleftrightarrow>
     (set keys = {} \<or> set keys = {Key_ctrl} \<or> set keys = {Key_shift} \<or> set keys = {Key_alt})"
  by (auto simp: add_combination_def Let_def modifier_keys_def card_1_singleton_iff)

lemma add_combination_rejected_state:
  "\<not> fst (add_combination tr name keys) \<Longrightarrow> snd (add_combination tr name keys) = tr"
  by (simp add: add_combination_def Let_def split: if_splits)

lemma add_combination_accepted_state:
  "fst (add_combination tr name keys) \<Longrightarrow>
     snd (add_combination tr name keys) =
       tr\<lparr>combinations := AList.update name (set keys) (combinations tr)\<rparr>"
  by (auto simp: add_combination_def Let_def split: if_splits)

text \<open>
  Claim C5. \<^verbatim>\<open>add_combination\<close> returns \<^verbatim>\<open>False\<close> exactly when the set of the keys is
  empty or is one of \<open>{ctrl}\<close>, \<open>{shift}\<close>, \<open>{alt}\<close>. When it does, the tracker is left
  as it was, so that match evaluation is what it was before the call. In every other case
  it returns \<^verbatim>\<open>True\<close> and the table maps the name to the key set, every other name
  keeping its entry.
\<close>

theorem add_combination_validation:
  "(\<not> fst (add_combination tr name keys) \<longleftrightarrow>
      (set keys = {} \<or> set keys = {Key_ctrl} \<or> set keys = {Key_shift} \<or> set keys = {Key_alt}))
   \<and> (\<not> fst (add_combination tr name keys) \<longrightarrow>
        snd (add_combination tr name keys) = tr
        \<and> check_combinations (snd (add_combination tr name keys)) = check_combinations tr)
   \<and> (fst (add_combination tr name keys) \<longrightarrow>
        snd (add_combination tr name keys) =
          tr\<lparr>combinations := AList.update name (set keys) (combinations tr)\<rparr>
        \<and> map_of (combinations (snd (add_combination tr name keys))) name = Some (set keys)
        \<and> (\<forall>other. other \<noteq> name \<longrightarrow>
              map_of (combinations (snd (add_combination tr name keys))) other =
              map_of (combinations tr) other))"
proof (intro conjI impI)
  show "\<not> fst (add_combination tr name keys) \<longleftrightarrow>
      (set keys = {} \<or> set keys = {Key_ctrl} \<or> set keys = {Key_shift} \<or> set keys = {Key_alt})"
    by (rule add_combination_rejects_iff)
next
  assume r: "\<not> fst (add_combination tr name keys)"
  show "snd (add_combination tr name keys) = tr"
    by (rule add_combination_rejected_state [OF r])
  then show "check_combinations (snd (add_combination tr name keys)) = check_combinations tr"
    by simp
next
  assume a: "fst (add_combination tr name keys)"
  show s: "snd (add_combination tr name keys) =
          tr\<lparr>combinations := AList.update name (set keys) (combinations tr)\<rparr>"
    by (rule add_combination_accepted_state [OF a])
  show "map_of (combinations (snd (add_combination tr name keys))) name = Some (set keys)"
    by (simp add: s update_conv')
  show "\<forall>other. other \<noteq> name \<longrightarrow>
              map_of (combinations (snd (add_combination tr name keys))) other =
              map_of (combinations tr) other"
    by (simp add: s update_conv')
qed

theorem add_combination_validation_witness:
  "\<not> fst (add_combination (init_tracker 0.8 2 0.5 0) ''x'' [Key_ctrl])
   \<and> snd (add_combination (init_tracker 0.8 2 0.5 0) ''x'' [Key_ctrl]) = init_tracker 0.8 2 0.5 0
   \<and> fst (add_combination (init_tracker 0.8 2 0.5 0) ''quick'' [Key_ctrl, Key_space])
   \<and> map_of (combinations (snd (add_combination (init_tracker 0.8 2 0.5 0) ''quick''
                [Key_ctrl, Key_space]))) ''quick'' = Some {Key_ctrl, Key_space}"
  using add_combination_validation [of "init_tracker 0.8 2 0.5 0" "''x''" "[Key_ctrl]"]
    add_combination_validation [of "init_tracker 0.8 2 0.5 0" "''quick''" "[Key_ctrl, Key_space]"]
  by (simp add: add_combination_def modifier_keys_def init_tracker_def)

text \<open>
  Claim C9, as stated: every key set that \<^verbatim>\<open>add_combination\<close> accepts has at least two
  elements. It fails for a single key that is no modifier: the registration of \<open>{space}\<close>
  is accepted.
\<close>

theorem accepted_size_counterexample:
  "\<not> (fst (add_combination (init_tracker 0.8 2 0.5 0) ''quick'' [Key_space])
       \<longrightarrow> 2 \<le> card (set [Key_space]))"
  by (simp add: add_combination_def modifier_keys_def)

text \<open>
  Claim C9, amended. Every key set that \<^verbatim>\<open>add_combination\<close> accepts is non-empty and is
  none of \<open>{ctrl}\<close>, \<open>{shift}\<close>, \<open>{alt}\<close>: it has at least two elements or is one key that
  is no modifier. The table is empty at construction, and when every key set of the table
  has this shape before a call of \<^verbatim>\<open>add_combination\<close>, every key set of the table has
  it after the call.
\<close>

theorem accepted_combination_shape:
  "combinations (init_tracker timeout hold interval now) = []
   \<and> (fst (add_combination tr name keys) \<longrightarrow>
        1 \<le> card (set keys)
        \<and> (2 \<le> card (set keys) \<or> (\<exists>k. set keys = {k} \<and> k \<notin> modifier_keys)))
   \<and> ((\<forall>(n, r) \<in> set (combinations tr).
          r \<noteq> {} \<and> r \<noteq> {Key_ctrl} \<and> r \<noteq> {Key_shift} \<and> r \<noteq> {Key_alt})
        \<longrightarrow> (\<forall>(n, r) \<in> set (combinations (snd (add_combination tr name keys))).
          r \<noteq> {} \<and> r \<noteq> {Key_ctrl} \<and> r \<noteq> {Key_shift} \<and> r \<noteq> {Key_alt}))"
proof (intro conjI impI)
  show "combinations (init_tracker timeout hold interval now) = []"
    by (simp add: init_tracker_def)
next
  assume a: "fst (add_combination tr name keys)"
  then have ne: "set keys \<noteq> {}" and nm: "\<not> (card (set keys) = 1 \<and> set keys \<subseteq> modifier_keys)"
    by (auto simp: add_combination_def Let_def split: if_splits)
  from ne show c1: "1 \<le> card (set keys)"
    by (simp add: Suc_le_eq card_gt_0_iff)
  show "2 \<le> card (set keys) \<or> (\<exists>k. set keys = {k} \<and> k \<notin> modifier_keys)"
  proof (cases "card (set keys) = 1")
    case True
    then obtain k where k: "set keys = {k}"
      by (auto simp: card_1_singleton_iff)
    with nm True have "k \<notin> modifier_keys" by simp
    with k show ?thesis by blast
  next
    case False
    with c1 show ?thesis by simp
  qed
next
  assume inv: "\<forall>(n, r) \<in> set (combinations tr).
          r \<noteq> {} \<and> r \<noteq> {Key_ctrl} \<and> r \<noteq> {Key_shift} \<and> r \<noteq> {Key_alt}"
  show "\<forall>(n, r) \<in> set (combinations (snd (add_combination tr name keys))).
          r \<noteq> {} \<and> r \<noteq> {Key_ctrl} \<and> r \<noteq> {Key_shift} \<and> r \<noteq> {Key_alt}"
  proof (cases "fst (add_combination tr name keys)")
    case False
    then show ?thesis
      using inv by (simp add: add_combination_rejected_state)
  next
    case True
    have sub: "set (AList.update name (set keys) (combinations tr))
                 \<subseteq> insert (name, set keys) (set (combinations tr))"
      by (rule set_update_subset)
    have ok: "set keys \<noteq> {} \<and> set keys \<noteq> {Key_ctrl} \<and> set keys \<noteq> {Key_shift}
              \<and> set keys \<noteq> {Key_alt}"
      using True add_combination_rejects_iff [of tr name keys] by blast
    show ?thesis
      unfolding add_combination_accepted_state [OF True]
      using sub inv ok by auto
  qed
qed

theorem accepted_combination_shape_witness:
  "fst (add_combination (init_tracker 0.8 2 0.5 0) ''quick'' [Key_space])
   \<and> 1 \<le> card (set [Key_space])
   \<and> combinations (snd (add_combination (init_tracker 0.8 2 0.5 0) ''quick'' [Key_space]))
       = [(''quick'', {Key_space})]
   \<and> {Key_space} \<noteq> {} \<and> {Key_space} \<noteq> {Key_ctrl} \<and> {Key_space} \<noteq> {Key_shift}
   \<and> {Key_space} \<noteq> {Key_alt}"
  using accepted_combination_shape [of "0.8" 2 "0.5" 0 "init_tracker 0.8 2 0.5 0" "''quick''"
      "[Key_space]"]
  by (simp add: add_combination_def modifier_keys_def init_tracker_def)

section \<open>Match evaluation\<close>

text \<open>
  Claim C1. \<^verbatim>\<open>check_combinations\<close> returns a name exactly when some key is held and the
  name is that of the first entry of the table, in registration order, whose key set
  equals the set of the held keys; it returns \<^verbatim>\<open>None\<close> exactly when no key is held or no
  entry has that key set. A name registered with a key set of which the held keys are a
  strict subset or a strict superset is never returned. The value a press returns is
  this evaluation, on a state in which the pressed key is held and the table is that of
  the state before the press.
\<close>

theorem check_combinations_exact_match:
  "(fst (check_combinations tr) = Some name \<longleftrightarrow>
      current_keys tr \<noteq> {}
      \<and> (\<exists>before after. combinations tr = before @ (name, current_keys tr) # after
             \<and> current_keys tr \<notin> snd ` set before))
   \<and> (fst (check_combinations tr) = None \<longleftrightarrow>
      current_keys tr = {} \<or> current_keys tr \<notin> snd ` set (combinations tr))
   \<and> (dict_ok (combinations tr) \<and> map_of (combinations tr) name = Some required
        \<and> (required \<subset> current_keys tr \<or> current_keys tr \<subset> required)
        \<longrightarrow> fst (check_combinations tr) \<noteq> Some name)
   \<and> (\<exists>tr4. on_key_press tr key t c = check_combinations tr4
          \<and> key \<in> current_keys tr4 \<and> combinations tr4 = combinations tr)"
proof (intro conjI impI)
  show "fst (check_combinations tr) = Some name \<longleftrightarrow>
      current_keys tr \<noteq> {}
      \<and> (\<exists>before after. combinations tr = before @ (name, current_keys tr) # after
             \<and> current_keys tr \<notin> snd ` set before)"
    by (simp add: check_combinations_fst first_match_Some_iff)
next
  show "fst (check_combinations tr) = None \<longleftrightarrow>
      current_keys tr = {} \<or> current_keys tr \<notin> snd ` set (combinations tr)"
    by (simp add: check_combinations_fst first_match_None_iff)
next
  assume a: "dict_ok (combinations tr) \<and> map_of (combinations tr) name = Some required
        \<and> (required \<subset> current_keys tr \<or> current_keys tr \<subset> required)"
  show "fst (check_combinations tr) \<noteq> Some name"
  proof
    assume "fst (check_combinations tr) = Some name"
    then have "first_match (current_keys tr) (combinations tr) = Some name"
      by (simp add: check_combinations_fst split: if_splits)
    then have "(name, current_keys tr) \<in> set (combinations tr)"
      by (rule first_match_in_table)
    moreover have "distinct (map fst (combinations tr))"
      using a by (simp add: dict_ok_def)
    ultimately have "map_of (combinations tr) name = Some (current_keys tr)"
      by (rule map_of_is_SomeI [rotated])
    with a have "required = current_keys tr" by simp
    with a show False by blast
  qed
next
  show "\<exists>tr4. on_key_press tr key t c = check_combinations tr4
          \<and> key \<in> current_keys tr4 \<and> combinations tr4 = combinations tr"
    by (rule on_key_press_is_check)
qed

theorem check_combinations_exact_match_witness:
  "fst (check_combinations ((init_tracker 0.8 2 0.5 0)
         \<lparr>combinations := [(''quick'', {Key_ctrl, Key_space}), (''other'', {Key_space, Key_ctrl})],
          key_states := [(Key_ctrl, 0), (Key_space, 0.3)]\<rparr>)) = Some ''quick''
   \<and> {Key_ctrl} \<subset> {Key_ctrl, Key_space}
   \<and> fst (check_combinations ((init_tracker 0.8 2 0.5 0)
         \<lparr>combinations := [(''quick'', {Key_ctrl, Key_space}), (''other'', {Key_space, Key_ctrl})],
          key_states := [(Key_ctrl, 0)]\<rparr>)) \<noteq> Some ''quick''"
  using check_combinations_exact_match [of "(init_tracker 0.8 2 0.5 0)
         \<lparr>combinations := [(''quick'', {Key_ctrl, Key_space}), (''other'', {Key_space, Key_ctrl})],
          key_states := [(Key_ctrl, 0)]\<rparr>" "''quick''" "{Key_ctrl, Key_space}" Key_ctrl 0 0]
  by (auto simp: check_combinations_def current_keys_def init_tracker_def dict_ok_def)

text \<open>
  Claim C3. When a press returns a name, the state it leaves has no held key and no start
  time. The next press, whatever came before, is then the match evaluation of the state
  whose only held key is the pressed one and whose start time is the time of that press;
  when that evaluation matches nothing, this is the state the press leaves.
\<close>

theorem match_resets_attempt:
  "fst (on_key_press tr key t c) = Some name \<longrightarrow>
     key_states (snd (on_key_press tr key t c)) = []
     \<and> combination_start_time (snd (on_key_press tr key t c)) = None
     \<and> on_key_press (snd (on_key_press tr key t c)) key2 t2 c2 =
         check_combinations
           ((snd (on_key_press tr key t c))
              \<lparr>stats := (stats (snd (on_key_press tr key t c)))
                  \<lparr>total_key_presses :=
                     total_key_presses (stats (snd (on_key_press tr key t c))) + 1\<rparr>,
               combination_start_time := Some t2,
               key_states := [(key2, t2)],
               last_activity := t2\<rparr>)
     \<and> (fst (on_key_press (snd (on_key_press tr key t c)) key2 t2 c2) = None \<longrightarrow>
          combination_start_time (snd (on_key_press (snd (on_key_press tr key t c)) key2 t2 c2))
            = Some t2
          \<and> key_states (snd (on_key_press (snd (on_key_press tr key t c)) key2 t2 c2))
            = [(key2, t2)])"
proof (intro impI)
  assume m: "fst (on_key_press tr key t c) = Some name"
  obtain tr4 where e: "on_key_press tr key t c = check_combinations tr4"
    using on_key_press_is_check [of tr key t c] by blast
  let ?s = "snd (on_key_press tr key t c)"
  from m e have r: "key_states ?s = [] \<and> combination_start_time ?s = None"
    using check_combinations_reset [of tr4 name] by simp
  have p: "on_key_press ?s key2 t2 c2 =
         check_combinations
           (?s\<lparr>stats := (stats ?s)\<lparr>total_key_presses := total_key_presses (stats ?s) + 1\<rparr>,
               combination_start_time := Some t2,
               key_states := [(key2, t2)],
               last_activity := t2\<rparr>)"
    using r by (simp add: on_key_press_empty)
  have n: "fst (on_key_press ?s key2 t2 c2) = None \<longrightarrow>
          combination_start_time (snd (on_key_press ?s key2 t2 c2)) = Some t2
          \<and> key_states (snd (on_key_press ?s key2 t2 c2)) = [(key2, t2)]"
    unfolding p by (auto dest: check_combinations_None_state)
  from r p n show "key_states ?s = [] \<and> combination_start_time ?s = None
     \<and> on_key_press ?s key2 t2 c2 =
         check_combinations
           (?s\<lparr>stats := (stats ?s)\<lparr>total_key_presses := total_key_presses (stats ?s) + 1\<rparr>,
               combination_start_time := Some t2,
               key_states := [(key2, t2)],
               last_activity := t2\<rparr>)
     \<and> (fst (on_key_press ?s key2 t2 c2) = None \<longrightarrow>
          combination_start_time (snd (on_key_press ?s key2 t2 c2)) = Some t2
          \<and> key_states (snd (on_key_press ?s key2 t2 c2)) = [(key2, t2)])"
    by blast
qed


theorem match_resets_attempt_witness:
  "fst (on_key_press
         (snd (on_key_press
                (snd (add_combination (init_tracker 0.8 2 0.5 100) ''quick'' [Key_ctrl, Key_space]))
                Key_ctrl 100 100))
         Key_space 100.3 100.3) = Some ''quick''
   \<and> key_states (snd (on_key_press
         (snd (on_key_press
                (snd (add_combination (init_tracker 0.8 2 0.5 100) ''quick'' [Key_ctrl, Key_space]))
                Key_ctrl 100 100))
         Key_space 100.3 100.3)) = []
   \<and> combination_start_time (snd (on_key_press
         (snd (on_key_press
                (snd (add_combination (init_tracker 0.8 2 0.5 100) ''quick'' [Key_ctrl, Key_space]))
                Key_ctrl 100 100))
         Key_space 100.3 100.3)) = None
   \<and> combination_start_time (snd (on_key_press (snd (on_key_press
         (snd (on_key_press
                (snd (add_combination (init_tracker 0.8 2 0.5 100) ''quick'' [Key_ctrl, Key_space]))
                Key_ctrl 100 100))
         Key_space 100.3 100.3)) Key_ctrl 101 101)) = Some 101"
  using match_resets_attempt [of
      "snd (on_key_press
                (snd (add_combination (init_tracker 0.8 2 0.5 100) ''quick'' [Key_ctrl, Key_space]))
                Key_ctrl 100 100)"
      Key_space "100.3" "100.3" "''quick''" Key_ctrl 101 101]
  by (simp add: on_key_press_def cleanup_stuck_keys_def stuck_keys_def timed_out_def
      check_combinations_def current_keys_def add_combination_def modifier_keys_def
      init_tracker_def Let_def insert_commute)

section \<open>The start time and the held keys\<close>

lemma consistent_init: "window_consistent (init_tracker timeout hold interval now)"
  by (simp add: window_consistent_def init_tracker_def)

lemma consistent_force_reset: "window_consistent (force_reset tr now)"
  by (simp add: window_consistent_def force_reset_def Let_def)

lemma consistent_check:
  "window_consistent tr \<Longrightarrow> window_consistent (snd (check_combinations tr))"
  by (simp add: window_consistent_def check_combinations_def split: option.splits)

lemma consistent_cleanup:
  assumes "window_consistent tr"
  shows "window_consistent (cleanup_stuck_keys tr c)"
proof (cases "key_states (cleanup_stuck_keys tr c) = []")
  case True
  show ?thesis
  proof (cases "stuck_keys tr c = []")
    case True
    with assms show ?thesis by (simp add: cleanup_nothing_stuck)
  next
    case False
    with True show ?thesis
      by (simp add: window_consistent_def cleanup_start_time)
  qed
next
  case False
  then have "key_states tr \<noteq> []"
    by (auto simp: cleanup_key_states)
  with assms False show ?thesis
    by (simp add: window_consistent_def cleanup_start_time)
qed

lemma consistent_release:
  assumes "window_consistent tr"
  shows "window_consistent (snd (on_key_release tr key now))"
proof (cases "key \<in> current_keys tr")
  case False
  with assms show ?thesis by (simp add: on_key_release_def)
next
  case True
  then have "key_states tr \<noteq> []" by (auto simp: current_keys_def)
  with assms True show ?thesis
    by (simp add: on_key_release_def Let_def window_consistent_def)
qed

lemma consistent_press:
  assumes "window_consistent tr"
  shows "window_consistent (snd (on_key_press tr key t c))"
proof -
  define tr1 where "tr1 = tr\<lparr>stats := (stats tr)\<lparr>total_key_presses := total_key_presses (stats tr) + 1\<rparr>\<rparr>"
  define tr2 where "tr2 = cleanup_stuck_keys tr1 c"
  define tr3 where "tr3 = (if key_states tr2 = [] then
                   tr2\<lparr>combination_start_time := Some t\<rparr>
                 else if timed_out tr2 t then
                   tr2\<lparr>stats := (stats tr2)\<lparr>combinations_timeout :=
                                     combinations_timeout (stats tr2) + 1\<rparr>,
                       key_states := [],
                       combination_start_time := Some t\<rparr>
                 else tr2)"
  define tr4 where "tr4 = tr3\<lparr>key_states := AList.update key t (key_states tr3),
                    last_activity := t\<rparr>"
  have e: "on_key_press tr key t c = check_combinations tr4"
    by (simp add: on_key_press_def Let_def tr1_def tr2_def tr3_def tr4_def)
  have "window_consistent tr1"
    using assms by (simp add: window_consistent_def tr1_def)
  then have c2: "window_consistent tr2"
    unfolding tr2_def by (rule consistent_cleanup)
  have "combination_start_time tr3 \<noteq> None"
    using c2 by (auto simp: tr3_def window_consistent_def)
  then have "window_consistent tr4"
    by (simp add: tr4_def window_consistent_def)
  then show ?thesis
    unfolding e by (rule consistent_check)
qed

lemma consistent_monitor:
  assumes "window_consistent tr"
  shows "window_consistent (monitor tr t c r)"
  using consistent_cleanup [OF assms, of c] consistent_force_reset
  by (simp add: monitor_def Let_def)

text \<open>
  Claim C7. The start time is \<^verbatim>\<open>None\<close> exactly when no key is held: this holds of the
  tracker \<^verbatim>\<open>__init__\<close> builds, and each of \<^verbatim>\<open>on_key_press\<close>, \<^verbatim>\<open>on_key_release\<close>,
  \<^verbatim>\<open>cleanup_stuck_keys\<close>, a run of the monitor, \<^verbatim>\<open>check_combinations\<close> and
  \<^verbatim>\<open>force_reset\<close>, run to its end from a state where it holds, leaves a state where it
  holds.
\<close>

theorem start_time_invariant:
  "window_consistent (init_tracker timeout hold interval now)
   \<and> (window_consistent tr \<longrightarrow>
        window_consistent (snd (on_key_press tr key t c))
        \<and> window_consistent (snd (on_key_release tr key t))
        \<and> window_consistent (cleanup_stuck_keys tr c)
        \<and> window_consistent (monitor tr t c r)
        \<and> window_consistent (snd (check_combinations tr))
        \<and> window_consistent (force_reset tr t))"
  by (simp add: consistent_init consistent_press consistent_release consistent_cleanup
      consistent_monitor consistent_check consistent_force_reset)

theorem start_time_invariant_witness:
  "window_consistent (init_tracker 0.8 2 0.5 100)
   \<and> window_consistent (snd (on_key_press (init_tracker 0.8 2 0.5 100) Key_ctrl 100 100))
   \<and> key_states (snd (on_key_press (init_tracker 0.8 2 0.5 100) Key_ctrl 100 100))
       = [(Key_ctrl, 100)]
   \<and> combination_start_time (snd (on_key_press (init_tracker 0.8 2 0.5 100) Key_ctrl 100 100))
       = Some 100"
  using start_time_invariant [of "0.8" 2 "0.5" 100 "init_tracker 0.8 2 0.5 100" Key_ctrl 100 100 100]
  by (simp add: on_key_press_def cleanup_stuck_keys_def stuck_keys_def timed_out_def
      check_combinations_def current_keys_def init_tracker_def Let_def window_consistent_def)

section \<open>Key releases\<close>

text \<open>
  Claim C10. \<^verbatim>\<open>on_key_release\<close> returns \<^verbatim>\<open>None\<close> and leaves the four counters as they
  were, whatever the state. For a key that is not in \<^verbatim>\<open>key_states\<close> it leaves the whole
  tracker as it was: the keys held, the start time of the combination, the counters and
  \<^verbatim>\<open>last_activity\<close>.
\<close>

theorem release_of_key_not_held:
  "fst (on_key_release tr key now) = None
   \<and> stats (snd (on_key_release tr key now)) = stats tr
   \<and> (key \<notin> current_keys tr \<longrightarrow> snd (on_key_release tr key now) = tr)"
  by (simp add: on_key_release_def Let_def)

theorem release_of_key_not_held_witness:
  "Key_ctrl \<notin> current_keys (init_tracker 0.8 2 0.5 0)
   \<and> on_key_release (init_tracker 0.8 2 0.5 0) Key_ctrl 1 = (None, init_tracker 0.8 2 0.5 0)"
  using release_of_key_not_held [of "init_tracker 0.8 2 0.5 0" Key_ctrl 1]
  by (simp add: current_keys_def init_tracker_def prod_eq_iff)

end
